theory Spec2Isabelle
  imports Complex_Main "HOL-Library.Word"
begin

unbundle bit_operations_syntax

section \<open>Data model\<close>

text \<open>
  The program is a Go command-line IPv4 subnet calculator. Go's \<^verbatim>\<open>uint32\<close> is a
  \<^typ>\<open>32 word\<close>, \<^verbatim>\<open>byte\<close> is an \<^typ>\<open>8 word\<close>, and \<^verbatim>\<open>uint64\<close> a \<^typ>\<open>64 word\<close>:
  addition and subtraction wrap around exactly as Go's unsigned arithmetic does.
  A Go string is a sequence of bytes, here a \<^typ>\<open>string\<close>.
\<close>

type_synonym byte = "8 word"
type_synonym uint32 = "32 word"
type_synonym uint64 = "64 word"

text \<open>
  The four error values declared as constants of type \<^verbatim>\<open>IPv4Error\<close>, and
  \<open>ErrScan\<close> for an error value made by \<^verbatim>\<open>fmt.Sscanf\<close> and returned as it is.
\<close>

datatype error =
    ErrOutOfRange
  | ErrInvalidSyntax
  | ErrPrefixTooSmall
  | ErrMaskParse
  | ErrScan

text \<open>
  A call ends in one of four ways: it returns a value (\<open>Inr\<close>), it returns a non-nil
  \<^verbatim>\<open>error\<close> (\<open>Err\<close>), it panics at run time (\<open>Panic\<close>: an index out of range, a nil
  dereference, a negative length), or it reaches a conversion from floating point to
  an integer type whose operand the integer type cannot represent, for which the Go
  specification leaves the result to the implementation (\<open>ImplementationDependent\<close>).
\<close>

datatype fault = Err error | Panic | ImplementationDependent

type_synonym 'a result = "fault + 'a"

text \<open>\<^verbatim>\<open>type IPv4Address struct { Addr uint32; Description string }\<close>\<close>

record IPv4Address =
  Addr :: uint32
  Description :: string

text \<open>
  \<^verbatim>\<open>type Network struct\<close> has seven fields of type \<^verbatim>\<open>*IPv4Address\<close>. A pointer is
  an \<^typ>\<open>IPv4Address option\<close>, \<open>None\<close> being \<^verbatim>\<open>nil\<close>. No \<^verbatim>\<open>IPv4Address\<close> is written
  after it has been allocated, so the pointee stands for the pointer.
\<close>

record Network =
  address :: "IPv4Address option"
  mask_field :: "IPv4Address option"
  network :: "IPv4Address option"
  hostMin :: "IPv4Address option"
  hostMax :: "IPv4Address option"
  broadcast :: "IPv4Address option"
  hostsPerNet :: "IPv4Address option"

section \<open>Network descriptor\<close>

definition NewNetwork :: "uint32 \<Rightarrow> uint32 \<Rightarrow> Network" where
  "NewNetwork address_arg mask_arg =
     (let ip_address = address_arg;
          ip_mask = mask_arg;
          ip_network = ip_address AND ip_mask;
          ip_hostMin = ip_network + 1;
          ip_broadcast = ip_network + NOT ip_mask;
          ip_hostMax = ip_broadcast - 1;
          ip_hostCount = ip_broadcast - ip_hostMin
      in \<lparr> address = Some \<lparr>Addr = ip_address, Description = ''Address''\<rparr>,
           mask_field = Some \<lparr>Addr = ip_mask, Description = ''Netmask''\<rparr>,
           network = Some \<lparr>Addr = ip_network, Description = ''Network''\<rparr>,
           hostMin = Some \<lparr>Addr = ip_hostMin, Description = ''HostMin''\<rparr>,
           hostMax = Some \<lparr>Addr = ip_hostMax, Description = ''HostMax''\<rparr>,
           broadcast = Some \<lparr>Addr = ip_broadcast, Description = ''Broadcast''\<rparr>,
           hostsPerNet = Some \<lparr>Addr = ip_hostCount, Description = ''Hosts/Net''\<rparr> \<rparr>)"

text \<open>Reading \<^verbatim>\<open>p.Addr\<close> through a pointer: a nil pointer panics.\<close>

definition deref_Addr :: "IPv4Address option \<Rightarrow> uint32 result" where
  "deref_Addr p = (case p of None \<Rightarrow> Inl Panic | Some a \<Rightarrow> Inr (Addr a))"

section \<open>Address codec: dotted quad to integer\<close>

text \<open>
  \<^verbatim>\<open>strings.Split(s, ".")\<close> of the Go library: the substrings between the dots, in
  order. A string without a dot, the empty string included, gives one token. The
  result is never empty, so the last case is not reached.
\<close>

fun Split :: "string \<Rightarrow> string list" where
  "Split [] = [[]]"
| "Split (c # cs) =
     (if c = CHR ''.'' then [] # Split cs
      else (case Split cs of t # ts \<Rightarrow> (c # t) # ts | [] \<Rightarrow> [[c]]))"

text \<open>The two error causes of \<^verbatim>\<open>strconv\<close>: \<^verbatim>\<open>strconv.ErrRange\<close> and \<^verbatim>\<open>strconv.ErrSyntax\<close>.\<close>

datatype strconv_error = ErrRange | ErrSyntax

text \<open>
  \<^verbatim>\<open>convertStrconvError\<close>: the \<^verbatim>\<open>default\<close> branch returns any other error unchanged;
  \<^verbatim>\<open>strconv.ParseUint\<close> produces only these two.
\<close>

definition convertStrconvError :: "strconv_error \<Rightarrow> error" where
  "convertStrconvError err =
     (case err of ErrRange \<Rightarrow> ErrOutOfRange | ErrSyntax \<Rightarrow> ErrInvalidSyntax)"

definition isDigit :: "char \<Rightarrow> bool" where
  "isDigit c = (48 \<le> (of_char c :: nat) \<and> (of_char c :: nat) \<le> 57)"

definition digitVal :: "char \<Rightarrow> nat" where
  "digitVal c = of_char c - 48"

text \<open>
  \<^verbatim>\<open>strconv.ParseUint(s, 10, 0)\<close> of the Go library. Bit size 0 stands for the size of
  \<^verbatim>\<open>uint\<close>, 64 bits on the 64-bit platforms modelled here. The accumulator is a
  \<^verbatim>\<open>uint64\<close>, written as a natural number below \<open>2^64\<close> with the wrap-around of
  \<^verbatim>\<open>n *= 10\<close> and \<^verbatim>\<open>n + d\<close> spelled out. The bytes are read from left to right: the
  first byte that is not a decimal digit ends the call with value 0 and
  \<^verbatim>\<open>ErrSyntax\<close> (a letter is a digit of a base above ten, an underscore is allowed
  in base 0 only); the first digit at which the value no longer fits ends it with
  the largest value and \<^verbatim>\<open>ErrRange\<close>. The empty string is a syntax error.
  \<open>maxVal\<close> is \<^verbatim>\<open>uint64(1)<<uint(bitSize) - 1\<close> and \<open>cutoff\<close> is \<^verbatim>\<open>maxUint64/10 + 1\<close>.
\<close>

definition IntSize :: nat where
  "IntSize = 64"

definition maxUint64 :: nat where
  "maxUint64 = 2 ^ 64 - 1"

definition cutoff :: nat where
  "cutoff = maxUint64 div 10 + 1"

definition maxVal :: nat where
  "maxVal = (2 ^ IntSize mod 2 ^ 64 + 2 ^ 64 - 1) mod 2 ^ 64"

fun ParseUint_digits :: "nat \<Rightarrow> string \<Rightarrow> nat \<times> strconv_error option" where
  "ParseUint_digits n [] = (n, None)"
| "ParseUint_digits n (c # cs) =
     (if \<not> isDigit c then (0, Some ErrSyntax)
      else if cutoff \<le> n then (maxVal, Some ErrRange)
      else
        (let n' = (n * 10) mod 2 ^ 64;
             n1 = (n' + digitVal c) mod 2 ^ 64
         in if n1 < n' \<or> maxVal < n1 then (maxVal, Some ErrRange)
            else ParseUint_digits n1 cs))"

definition ParseUint :: "string \<Rightarrow> nat \<times> strconv_error option" where
  "ParseUint s = (if s = [] then (0, Some ErrSyntax) else ParseUint_digits 0 s)"

text \<open>
  The loop of \<^verbatim>\<open>IPv4ToInt\<close> over the tokens. The range test on \<^verbatim>\<open>val\<close> comes before
  the test of \<^verbatim>\<open>err\<close>, as in the source; \<^verbatim>\<open>val < 0\<close> is never true of an unsigned
  value. \<^verbatim>\<open>byte(val)\<close> keeps the low eight bits.
\<close>

fun IPv4ToInt_loop :: "string list \<Rightarrow> byte list \<Rightarrow> byte list result" where
  "IPv4ToInt_loop [] bytes = Inr bytes"
| "IPv4ToInt_loop (octetString # rest) bytes =
     (case ParseUint octetString of
        (val, err) \<Rightarrow>
          if val < 0 \<or> 255 < val then Inl (Err ErrOutOfRange)
          else (case err of
                  Some e \<Rightarrow> Inl (Err (convertStrconvError e))
                | None \<Rightarrow> IPv4ToInt_loop rest (bytes @ [of_nat val])))"

text \<open>
  \<^verbatim>\<open>binary.BigEndian.Uint32(b)\<close> of the Go library reads \<^verbatim>\<open>b[3]\<close> first, which panics
  with an index out of range when \<^verbatim>\<open>b\<close> has fewer than four bytes, and then packs
  \<^verbatim>\<open>b[0]\<close> to \<^verbatim>\<open>b[3]\<close>, most significant first. Bytes after the fourth are not read.
\<close>

definition BigEndian_Uint32 :: "byte list \<Rightarrow> uint32 result" where
  "BigEndian_Uint32 b =
     (if length b < 4 then Inl Panic
      else Inr (ucast (b ! 3) OR push_bit 8 (ucast (b ! 2)) OR push_bit 16 (ucast (b ! 1))
                  OR push_bit 24 (ucast (b ! 0))))"

definition IPv4ToInt :: "string \<Rightarrow> uint32 result" where
  "IPv4ToInt addrString =
     (let splitAddr = Split addrString
      in case IPv4ToInt_loop splitAddr [] of
           Inl f \<Rightarrow> Inl f
         | Inr bytes \<Rightarrow> BigEndian_Uint32 bytes)"

section \<open>Floating point\<close>

text \<open>
  The source computes the mask of a prefix and the number of subnets with
  \<^verbatim>\<open>math.Exp2\<close> on \<^verbatim>\<open>float64\<close>. A \<^verbatim>\<open>float64\<close> is an IEEE 754 binary64 number: here
  the rational it denotes, or an infinity, or not-a-number. The sign of a zero is not
  kept; the only zeros used as divisors below are results of \<^verbatim>\<open>math.Exp2\<close>, which are
  positive.
\<close>

datatype float64 = Finite rat | PosInf | NegInf | NaN

text \<open>
  Rounding a rational to binary64, to nearest with ties to even: \<open>floor_log2\<close> is
  the exponent of a positive rational, the unit in the last place is
  \<open>2^(e - 52)\<close> with the exponent held at \<open>-1022\<close> for subnormal numbers, and a rounded
  magnitude of \<open>2^1024\<close> or more is an infinity.
\<close>

definition pow2 :: "int \<Rightarrow> rat" where
  "pow2 e = (if 0 \<le> e then 2 ^ nat e else 1 / 2 ^ nat (- e))"

fun bitlen :: "nat \<Rightarrow> nat" where
  "bitlen n = (if n = 0 then 0 else Suc (bitlen (n div 2)))"

declare bitlen.simps [simp del]

definition floor_log2 :: "rat \<Rightarrow> int" where
  "floor_log2 q =
     (case quotient_of q of
        (p, d) \<Rightarrow>
          (let e = int (bitlen (nat p)) - int (bitlen (nat d))
           in if pow2 e \<le> q then e else e - 1))"

definition round_half_even :: "rat \<Rightarrow> int" where
  "round_half_even q =
     (let f = \<lfloor>q\<rfloor>; d = q - of_int f
      in if d < 1 / 2 then f
         else if 1 / 2 < d then f + 1
         else if even f then f else f + 1)"

definition round_float64 :: "rat \<Rightarrow> float64" where
  "round_float64 q =
     (if q = 0 then Finite 0
      else
        (let a = \<bar>q\<bar>;
             e = max (floor_log2 a) (- 1022);
             ulp = pow2 (e - 52);
             r = of_int (round_half_even (a / ulp)) * ulp
         in if pow2 1024 \<le> r then (if 0 < q then PosInf else NegInf)
            else Finite (if 0 < q then r else - r)))"

text \<open>
  The conversion \<^verbatim>\<open>float64(i)\<close> of an integer, the subtraction and the division of
  \<^verbatim>\<open>float64\<close> values.
\<close>

definition float64_of_int :: "int \<Rightarrow> float64" where
  "float64_of_int i = round_float64 (of_int i)"

fun float64_sub :: "float64 \<Rightarrow> float64 \<Rightarrow> float64" where
  "float64_sub (Finite x) (Finite y) = round_float64 (x - y)"
| "float64_sub NaN _ = NaN"
| "float64_sub _ NaN = NaN"
| "float64_sub PosInf PosInf = NaN"
| "float64_sub NegInf NegInf = NaN"
| "float64_sub PosInf _ = PosInf"
| "float64_sub NegInf _ = NegInf"
| "float64_sub (Finite x) PosInf = NegInf"
| "float64_sub (Finite x) NegInf = PosInf"

fun float64_div :: "float64 \<Rightarrow> float64 \<Rightarrow> float64" where
  "float64_div (Finite x) (Finite y) =
     (if y = 0 then (if x = 0 then NaN else if 0 < x then PosInf else NegInf)
      else round_float64 (x / y))"
| "float64_div NaN _ = NaN"
| "float64_div _ NaN = NaN"
| "float64_div (Finite x) _ = Finite 0"
| "float64_div PosInf (Finite y) = (if 0 \<le> y then PosInf else NegInf)"
| "float64_div NegInf (Finite y) = (if 0 \<le> y then NegInf else PosInf)"
| "float64_div _ _ = NaN"

text \<open>
  \<^verbatim>\<open>math.Exp2\<close> of the Go library on an argument that is an integer: above 1023 the
  result overflows to \<open>+Inf\<close>, below \<open>-1074\<close> it is 0, and in between the library's
  reduction leaves the remainder 0 and returns \<^verbatim>\<open>Ldexp(1, k)\<close>, the exact power of two.
  Every argument in this program is an integer: it is the \<^verbatim>\<open>float64\<close> of an integer, or
  32 minus one. For an argument that is not an integer the library returns an
  approximation that is not described here; the last branch stands for it and is not
  reached.
\<close>

fun Exp2 :: "float64 \<Rightarrow> float64" where
  "Exp2 NaN = NaN"
| "Exp2 PosInf = PosInf"
| "Exp2 NegInf = Finite 0"
| "Exp2 (Finite x) =
     (if x = of_int \<lfloor>x\<rfloor> then
        (if 1023 < x then PosInf
         else if x < - 1074 then Finite 0
         else Finite (pow2 \<lfloor>x\<rfloor>))
      else NaN)"

text \<open>
  Conversion of a \<^verbatim>\<open>float64\<close> to an integer type discards the fraction; when the
  integer type cannot represent the result, the conversion succeeds with a value that
  depends on the implementation.
\<close>

definition trunc_toward_zero :: "rat \<Rightarrow> int" where
  "trunc_toward_zero x = (if 0 \<le> x then \<lfloor>x\<rfloor> else \<lceil>x\<rceil>)"

fun uint32_of_float64 :: "float64 \<Rightarrow> uint32 result" where
  "uint32_of_float64 (Finite x) =
     (if 0 \<le> trunc_toward_zero x \<and> trunc_toward_zero x < 2 ^ 32 then Inr (of_int (trunc_toward_zero x))
      else Inl ImplementationDependent)"
| "uint32_of_float64 _ = Inl ImplementationDependent"

fun int_of_float64 :: "float64 \<Rightarrow> int result" where
  "int_of_float64 (Finite x) =
     (if - (2 ^ 63) \<le> trunc_toward_zero x \<and> trunc_toward_zero x < 2 ^ 63 then Inr (trunc_toward_zero x)
      else Inl ImplementationDependent)"
| "int_of_float64 _ = Inl ImplementationDependent"

text \<open>
  \<^verbatim>\<open>uint32(math.Exp2(32) - math.Exp2(float64(32-prefix)))\<close>: the subtraction
  \<^verbatim>\<open>32-prefix\<close> is a \<^verbatim>\<open>uint32\<close> subtraction and wraps around for a prefix above 32.
\<close>

definition prefixToMask :: "uint32 \<Rightarrow> uint32 result" where
  "prefixToMask prefix =
     uint32_of_float64
       (float64_sub (Exp2 (Finite 32)) (Exp2 (float64_of_int (uint (32 - prefix)))))"

text \<open>
  \<^verbatim>\<open>getSubnetCount\<close>: the two arguments and the result have Go's type \<^verbatim>\<open>int\<close>, here
  \<^typ>\<open>int\<close>; the only caller passes two bit counts between 0 and 32.
\<close>

definition getSubnetCount :: "int \<Rightarrow> int \<Rightarrow> int result" where
  "getSubnetCount prefix subnetPrefix =
     (if subnetPrefix \<le> prefix then Inl (Err ErrPrefixTooSmall)
      else int_of_float64
             (float64_div (Exp2 (float64_sub (Finite 32) (float64_of_int prefix)))
                          (Exp2 (float64_sub (Finite 32) (float64_of_int subnetPrefix)))))"


section \<open>Subnet partitioner\<close>

text \<open>
  \<^verbatim>\<open>bits.OnesCount32\<close> of the Go library: the number of bits of a \<^verbatim>\<open>uint32\<close> that are
  set, as an \<^verbatim>\<open>int\<close>.
\<close>

fun count_ones :: "nat \<Rightarrow> uint32 \<Rightarrow> nat" where
  "count_ones 0 x = 0"
| "count_ones (Suc n) x = (if bit x n then 1 else 0) + count_ones n x"

definition OnesCount32 :: "uint32 \<Rightarrow> int" where
  "OnesCount32 x = int (count_ones 32 x)"

text \<open>
  \<^verbatim>\<open>make([]Network, subnetCount)\<close> gives a slice of zero values, whose seven pointers
  are nil, and panics on a negative length. The machine's memory is taken to be large
  enough for the slice. Reading and writing \<^verbatim>\<open>subnets[i]\<close> panics outside the slice.
\<close>

definition zero_Network :: Network where
  "zero_Network =
     \<lparr> address = None, mask_field = None, network = None, hostMin = None,
       hostMax = None, broadcast = None, hostsPerNet = None \<rparr>"

definition make_Networks :: "int \<Rightarrow> Network list result" where
  "make_Networks n = (if n < 0 then Inl Panic else Inr (replicate (nat n) zero_Network))"

definition index_Network :: "Network list \<Rightarrow> int \<Rightarrow> Network result" where
  "index_Network xs i =
     (if 0 \<le> i \<and> i < int (length xs) then Inr (xs ! nat i) else Inl Panic)"

definition store_Network :: "Network list \<Rightarrow> int \<Rightarrow> Network \<Rightarrow> Network list result" where
  "store_Network xs i v =
     (if 0 \<le> i \<and> i < int (length xs) then Inr (xs[nat i := v]) else Inl Panic)"

text \<open>
  The body of the loop of \<^verbatim>\<open>CreateSubnets\<close>: for \<^verbatim>\<open>i != 0\<close> the variable
  \<^verbatim>\<open>address\<close> becomes \<^verbatim>\<open>subnets[i-1].broadcast.Addr + 1\<close>, then
  \<^verbatim>\<open>subnets[i] = *NewNetwork(address, subnetMask)\<close>. The loop runs while
  \<^verbatim>\<open>i < subnetCount\<close>, so it ends after \<^verbatim>\<open>subnetCount - i\<close> rounds.
\<close>

definition next_address :: "Network list \<Rightarrow> int \<Rightarrow> uint32 \<Rightarrow> uint32 result" where
  "next_address subnets i address_var =
     (if i \<noteq> 0 then
        (case index_Network subnets (i - 1) of
           Inl f \<Rightarrow> Inl f
         | Inr prev \<Rightarrow>
             (case deref_Addr (broadcast prev) of
                Inl f \<Rightarrow> Inl f
              | Inr b \<Rightarrow> Inr (b + 1)))
      else Inr address_var)"

function CreateSubnets_loop ::
  "int \<Rightarrow> int \<Rightarrow> uint32 \<Rightarrow> uint32 \<Rightarrow> Network list \<Rightarrow> Network list result" where
  "CreateSubnets_loop i subnetCount address_var subnetMask subnets =
     (if i < subnetCount then
        (case next_address subnets i address_var of
           Inl f \<Rightarrow> Inl f
         | Inr address_var' \<Rightarrow>
             (case store_Network subnets i (NewNetwork address_var' subnetMask) of
                Inl f \<Rightarrow> Inl f
              | Inr subnets' \<Rightarrow>
                  CreateSubnets_loop (i + 1) subnetCount address_var' subnetMask subnets'))
      else Inr subnets)"
  by pat_completeness auto
termination
  by (relation "measure (\<lambda>(i, subnetCount, _). nat (subnetCount - i))") auto

declare CreateSubnets_loop.simps [simp del]

definition CreateSubnets :: "uint32 \<Rightarrow> uint32 \<Rightarrow> uint32 \<Rightarrow> Network list result" where
  "CreateSubnets address_arg mask_arg subnetMask =
     (case getSubnetCount (OnesCount32 mask_arg) (OnesCount32 subnetMask) of
        Inl err \<Rightarrow> Inl err
      | Inr subnetCount \<Rightarrow>
          (case make_Networks subnetCount of
             Inl f \<Rightarrow> Inl f
           | Inr subnets \<Rightarrow> CreateSubnets_loop 0 subnetCount address_arg subnetMask subnets))"


text \<open>
  The list that the loop builds, written by recursion on its length: the descriptor
  of an address under the subnet mask, followed by the list that starts one above its
  broadcast address.
\<close>

fun subnet_chain :: "nat \<Rightarrow> uint32 \<Rightarrow> uint32 \<Rightarrow> Network list" where
  "subnet_chain 0 a m = []"
| "subnet_chain (Suc k) a m = NewNetwork a m # subnet_chain k ((a AND m) + NOT m + 1) m"

section \<open>Stated properties, as predicates\<close>

text \<open>
  The ordering of the four range fields of a descriptor as unsigned 32-bit values,
  and the idempotence of its network field under its mask.
\<close>

definition host_range_ordered :: "Network \<Rightarrow> bool" where
  "host_range_ordered n =
     (case (network n, hostMin n, hostMax n, broadcast n) of
        (Some nw, Some lo, Some hi, Some bc) \<Rightarrow>
          Addr nw \<le> Addr lo \<and> Addr lo \<le> Addr hi \<and> Addr hi \<le> Addr bc
      | _ \<Rightarrow> False)"

definition network_idempotent :: "Network \<Rightarrow> bool" where
  "network_idempotent n =
     (case (network n, mask_field n) of
        (Some nw, Some m) \<Rightarrow> Addr nw AND Addr m = Addr nw
      | _ \<Rightarrow> False)"

text \<open>
  The words of the specification about one token of a dotted quad: its numeric value
  when it is a decimal numeral, a token that is an octet, a token whose value is out
  of range, and a token that is empty or holds a byte that is not a decimal digit
  (a sign is such a byte).
\<close>

definition decimalFrom :: "nat \<Rightarrow> string \<Rightarrow> nat" where
  "decimalFrom n ds = foldl (\<lambda>a c. a * 10 + digitVal c) n ds"

definition decimalValue :: "string \<Rightarrow> nat" where
  "decimalValue ds = decimalFrom 0 ds"

definition numeral_token :: "string \<Rightarrow> bool" where
  "numeral_token t = (t \<noteq> [] \<and> list_all isDigit t)"

definition octet_token :: "string \<Rightarrow> bool" where
  "octet_token t = (numeral_token t \<and> decimalValue t \<le> 255)"

definition out_of_range_token :: "string \<Rightarrow> bool" where
  "out_of_range_token t = (numeral_token t \<and> 255 < decimalValue t)"

definition malformed_token :: "string \<Rightarrow> bool" where
  "malformed_token t = (\<not> numeral_token t)"

section \<open>Properties of the network descriptor\<close>

lemma and_not_self_zero: "(a AND m) AND NOT m = (0 :: uint32)"
  by (simp add: bit_eq_iff bit_and_iff bit_not_iff)

lemma network_plus_hostpart: "(a AND m) + NOT m = (a AND m) OR NOT (m :: uint32)"
  by (rule disjunctive_add_eq_or) (simp add: and_not_self_zero)

lemma hostpart_no_overflow: "unat (a AND m) + unat (NOT m) < 2 ^ 32" for a m :: uint32
proof -
  have "a AND m \<le> (a AND m) + NOT m"
    by (simp only: network_plus_hostpart le_word_or2)
  then have "unat (a AND m) + unat (NOT m) < 2 ^ LENGTH(32)"
    by (rule no_olen_add_nat [THEN iffD1])
  then show ?thesis by simp
qed

lemma range_ordered_if:
  fixes n h :: uint32
  assumes no: "unat n + unat h < 2 ^ 32" and h2: "2 \<le> h"
  shows "n \<le> n + 1 \<and> n + 1 \<le> n + h - 1 \<and> n + h - 1 \<le> n + h"
proof -
  have H: "2 \<le> unat h" using h2 by (simp add: word_le_nat_alt)
  have a: "unat (n + h) = unat n + unat h"
    using no by (simp add: unat_add_lem [THEN iffD1])
  have b: "unat (n + 1) = unat n + 1"
    using no H by (simp add: unat_add_lem [THEN iffD1])
  have "unat (n + h) \<noteq> 0" using a H by simp
  then have "n + h \<noteq> 0" by (simp add: unsigned_eq_0_iff)
  then have c: "unat (n + h - 1) = unat n + unat h - 1"
    by (simp add: unat_minus_one a)
  show ?thesis using H by (simp add: word_le_nat_alt a b c)
qed

lemma range_ordered_only_if:
  fixes n h :: uint32
  assumes no: "unat n + unat h < 2 ^ 32" and h2: "\<not> 2 \<le> h"
  shows "\<not> (n \<le> n + 1 \<and> n + 1 \<le> n + h - 1 \<and> n + h - 1 \<le> n + h)"
proof
  assume ord: "n \<le> n + 1 \<and> n + 1 \<le> n + h - 1 \<and> n + h - 1 \<le> n + h"
  then have o1: "n \<le> n + 1" and o2: "n + 1 \<le> n + h - 1" and o3: "n + h - 1 \<le> n + h"
    by blast+
  have "unat h < 2" using h2 by (simp add: word_le_nat_alt)
  then have "unat h = 0 \<or> unat h = 1" by arith
  then have "h = 0 \<or> h = 1"
    by (auto simp: unsigned_eq_0_iff dest: word_unat_eq_iff [THEN iffD2, of h 1, simplified])
  then show False
  proof
    assume h0: "h = 0"
    show False
    proof (cases "n = 0")
      case True
      with o3 h0 show False by simp
    next
      case False
      then have c: "unat (n - 1) = unat n - 1" by (simp add: unat_minus_one)
      from False have pos: "0 < unat n" by (simp add: unat_gt_0)
      from o1 have "unat n + 1 < 2 ^ 32"
        using no_olen_add_nat [of n 1] by simp
      then have b: "unat (n + 1) = unat n + 1"
        by (simp add: unat_add_lem [THEN iffD1])
      from o2 h0 have "n + 1 \<le> n - 1" by simp
      then have "unat (n + 1) \<le> unat (n - 1)" by (simp only: word_le_nat_alt)
      with b c pos show False by simp
    qed
  next
    assume h1: "h = 1"
    with no have b: "unat (n + 1) = unat n + 1"
      by (simp add: unat_add_lem [THEN iffD1])
    from o2 h1 have "n + 1 \<le> n" by simp
    then have "unat (n + 1) \<le> unat n" by (simp only: word_le_nat_alt)
    with b show False by simp
  qed
qed

lemma host_range_ordered_NewNetwork:
  "host_range_ordered (NewNetwork a m) =
     ((a AND m) \<le> (a AND m) + 1 \<and> (a AND m) + 1 \<le> (a AND m) + NOT m - 1
        \<and> (a AND m) + NOT m - 1 \<le> (a AND m) + NOT m)"
  by (simp add: host_range_ordered_def NewNetwork_def Let_def)

text \<open>
  C1. For every address and mask, \<open>NewNetwork\<close> returns a descriptor (it has no failing
  branch) whose fields are: network = address AND mask, hostMin = network + 1,
  broadcast = network OR (NOT mask), which is the same word as network + NOT mask,
  hostMax = broadcast - 1 and hostsPerNet = broadcast - hostMin, all modulo \<open>2^32\<close>;
  the mask \<open>/32\<close> goes through the same formulas.
\<close>

theorem NewNetwork_fields:
  fixes a m :: uint32
  defines "nw \<equiv> a AND m" and "bc \<equiv> (a AND m) OR NOT m"
  shows "NewNetwork a m =
           \<lparr> address = Some \<lparr>Addr = a, Description = ''Address''\<rparr>,
             mask_field = Some \<lparr>Addr = m, Description = ''Netmask''\<rparr>,
             network = Some \<lparr>Addr = nw, Description = ''Network''\<rparr>,
             hostMin = Some \<lparr>Addr = nw + 1, Description = ''HostMin''\<rparr>,
             hostMax = Some \<lparr>Addr = bc - 1, Description = ''HostMax''\<rparr>,
             broadcast = Some \<lparr>Addr = bc, Description = ''Broadcast''\<rparr>,
             hostsPerNet = Some \<lparr>Addr = bc - (nw + 1), Description = ''Hosts/Net''\<rparr> \<rparr>
         \<and> bc = nw + NOT m
         \<and> uint (nw + 1) = (uint nw + 1) mod 2 ^ 32
         \<and> uint (nw + NOT m) = (uint nw + uint (NOT m)) mod 2 ^ 32
         \<and> uint (bc - 1) = (uint bc - 1) mod 2 ^ 32
         \<and> uint (bc - (nw + 1)) = (uint bc - uint (nw + 1)) mod 2 ^ 32
         \<and> NewNetwork a (- 1) =
           \<lparr> address = Some \<lparr>Addr = a, Description = ''Address''\<rparr>,
             mask_field = Some \<lparr>Addr = - 1, Description = ''Netmask''\<rparr>,
             network = Some \<lparr>Addr = a, Description = ''Network''\<rparr>,
             hostMin = Some \<lparr>Addr = a + 1, Description = ''HostMin''\<rparr>,
             hostMax = Some \<lparr>Addr = a - 1, Description = ''HostMax''\<rparr>,
             broadcast = Some \<lparr>Addr = a, Description = ''Broadcast''\<rparr>,
             hostsPerNet = Some \<lparr>Addr = - 1, Description = ''Hosts/Net''\<rparr> \<rparr>"
proof -
  have eq: "bc = nw + NOT m"
    unfolding nw_def bc_def by (rule network_plus_hostpart [symmetric])
  have fields: "NewNetwork a m =
           \<lparr> address = Some \<lparr>Addr = a, Description = ''Address''\<rparr>,
             mask_field = Some \<lparr>Addr = m, Description = ''Netmask''\<rparr>,
             network = Some \<lparr>Addr = nw, Description = ''Network''\<rparr>,
             hostMin = Some \<lparr>Addr = nw + 1, Description = ''HostMin''\<rparr>,
             hostMax = Some \<lparr>Addr = bc - 1, Description = ''HostMax''\<rparr>,
             broadcast = Some \<lparr>Addr = bc, Description = ''Broadcast''\<rparr>,
             hostsPerNet = Some \<lparr>Addr = bc - (nw + 1), Description = ''Hosts/Net''\<rparr> \<rparr>"
    unfolding eq by (simp add: NewNetwork_def Let_def nw_def)
  have degenerate: "NewNetwork a (- 1) =
           \<lparr> address = Some \<lparr>Addr = a, Description = ''Address''\<rparr>,
             mask_field = Some \<lparr>Addr = - 1, Description = ''Netmask''\<rparr>,
             network = Some \<lparr>Addr = a, Description = ''Network''\<rparr>,
             hostMin = Some \<lparr>Addr = a + 1, Description = ''HostMin''\<rparr>,
             hostMax = Some \<lparr>Addr = a - 1, Description = ''HostMax''\<rparr>,
             broadcast = Some \<lparr>Addr = a, Description = ''Broadcast''\<rparr>,
             hostsPerNet = Some \<lparr>Addr = - 1, Description = ''Hosts/Net''\<rparr> \<rparr>"
    by (simp add: NewNetwork_def Let_def)
  have m1: "uint (nw + 1) = (uint nw + 1) mod 2 ^ 32"
    by (simp add: uint_word_ariths)
  have m2: "uint (nw + NOT m) = (uint nw + uint (NOT m)) mod 2 ^ 32"
    by (simp add: uint_word_ariths)
  have m3: "uint (bc - 1) = (uint bc - 1) mod 2 ^ 32"
    by (simp add: uint_word_ariths)
  have m4: "uint (bc - (nw + 1)) = (uint bc - uint (nw + 1)) mod 2 ^ 32"
    by (simp add: uint_word_ariths)
  from fields eq m1 m2 m3 m4 degenerate show ?thesis by blast
qed

text \<open>
  C7 as stated fails: with the mask \<open>255.255.255.255\<close> the descriptor of \<open>192.168.0.1\<close>
  has hostMin = network + 1 above hostMax = network - 1.
\<close>

theorem NewNetwork_range_unordered_slash32:
  "\<not> host_range_ordered (NewNetwork 3232235521 4294967295)"
  by (simp add: host_range_ordered_def NewNetwork_def Let_def)

text \<open>
  C7, amended. For every address and mask, the descriptor built by \<open>NewNetwork\<close> has
  network AND mask = network; and network \<le> hostMin \<le> hostMax \<le> broadcast holds as
  unsigned 32-bit values exactly when the complement of the mask is at least 2 (for a
  contiguous mask: a prefix length of at most 30).
\<close>

theorem NewNetwork_range_ordered_iff:
  "host_range_ordered (NewNetwork a m) = (2 \<le> NOT m)
   \<and> network_idempotent (NewNetwork a m)"
proof -
  have "host_range_ordered (NewNetwork a m) = (2 \<le> NOT m)"
    unfolding host_range_ordered_NewNetwork
    using range_ordered_if [OF hostpart_no_overflow [of a m]]
      range_ordered_only_if [OF hostpart_no_overflow [of a m]]
    by blast
  moreover have "network_idempotent (NewNetwork a m)"
    by (simp add: network_idempotent_def NewNetwork_def Let_def and.assoc)
  ultimately show ?thesis by blast
qed

theorem NewNetwork_range_ordered_iff_witness:
  "host_range_ordered (NewNetwork 3232235521 4294967040)
   \<and> network_idempotent (NewNetwork 3232235521 4294967040)"
  using NewNetwork_range_ordered_iff [of 3232235521 4294967040] by simp

section \<open>Properties of the dotted-quad parser\<close>

lemma cutoff_val: "cutoff = 1844674407370955162"
  by (simp add: cutoff_def maxUint64_def)

lemma maxVal_val: "maxVal = 18446744073709551615"
  by (simp add: maxVal_def IntSize_def)

lemma digitVal_le: "isDigit c \<Longrightarrow> digitVal c \<le> 9"
  unfolding isDigit_def digitVal_def by arith

lemma decimalFrom_Cons: "decimalFrom n (c # cs) = decimalFrom (n * 10 + digitVal c) cs"
  by (simp add: decimalFrom_def)

lemma decimalFrom_Nil: "decimalFrom n [] = n"
  by (simp add: decimalFrom_def)

lemma decimalFrom_ge: "n \<le> decimalFrom n ds"
proof (induction ds arbitrary: n)
  case Nil
  show ?case by (simp add: decimalFrom_Nil)
next
  case (Cons c cs)
  have "n \<le> n * 10 + digitVal c" by simp
  also have "\<dots> \<le> decimalFrom (n * 10 + digitVal c) cs" by (rule Cons.IH)
  finally show ?case by (simp add: decimalFrom_Cons)
qed

lemma ParseUint_digits_fits:
  "list_all isDigit ds \<Longrightarrow> decimalFrom n ds < 2 ^ 64 \<Longrightarrow>
   ParseUint_digits n ds = (decimalFrom n ds, None)"
proof (induction ds arbitrary: n)
  case Nil
  show ?case by (simp add: decimalFrom_Nil)
next
  case (Cons c cs)
  let ?n1 = "n * 10 + digitVal c"
  from Cons.prems have dig: "isDigit c" and rest: "list_all isDigit cs" by simp_all
  have "?n1 \<le> decimalFrom ?n1 cs" by (rule decimalFrom_ge)
  with Cons.prems(2) have small: "?n1 < 18446744073709551616"
    by (simp add: decimalFrom_Cons)
  then have nc: "\<not> cutoff \<le> n" by (simp add: cutoff_val)
  from small have m1: "(n * 10) mod 18446744073709551616 = n * 10" by simp
  from small have m2: "?n1 mod 18446744073709551616 = ?n1" by simp
  from Cons.prems(2) have "decimalFrom ?n1 cs < 2 ^ 64" by (simp add: decimalFrom_Cons)
  then have "ParseUint_digits ?n1 cs = (decimalFrom ?n1 cs, None)"
    using rest by (rule Cons.IH [rotated])
  then show ?case
    using dig nc small by (simp add: m1 m2 maxVal_val decimalFrom_Cons Let_def)
qed

lemma ParseUint_digits_overflow:
  "list_all isDigit ds \<Longrightarrow> n < 2 ^ 64 \<Longrightarrow> 2 ^ 64 \<le> decimalFrom n ds \<Longrightarrow>
   ParseUint_digits n (ds @ rest) = (maxVal, Some ErrRange)"
proof (induction ds arbitrary: n)
  case Nil
  then show ?case by (simp add: decimalFrom_Nil)
next
  case (Cons c cs)
  let ?n1 = "n * 10 + digitVal c"
  from Cons.prems have dig: "isDigit c" and rest: "list_all isDigit cs" by simp_all
  show ?case
  proof (cases "cutoff \<le> n")
    case True
    with dig show ?thesis by simp
  next
    case False
    then have n10: "n * 10 < 18446744073709551616" by (simp add: cutoff_val)
    then have m1: "(n * 10) mod 18446744073709551616 = n * 10" by simp
    have d9: "digitVal c \<le> 9" using dig by (rule digitVal_le)
    show ?thesis
    proof (cases "?n1 < 18446744073709551616")
      case True
      then have m2: "?n1 mod 18446744073709551616 = ?n1" by simp
      from Cons.prems(3) have "2 ^ 64 \<le> decimalFrom ?n1 cs" by (simp add: decimalFrom_Cons)
      with True rest have "ParseUint_digits ?n1 (cs @ rest) = (maxVal, Some ErrRange)"
        by (intro Cons.IH) simp_all
      with dig False True show ?thesis
        by (simp add: m1 m2 maxVal_val Let_def)
    next
      case over: False
      then have "?n1 mod 18446744073709551616 = ?n1 - 18446744073709551616"
        using n10 d9 by (simp add: mod_if)
      with over n10 d9 have "?n1 mod 18446744073709551616 < n * 10" by simp
      with dig False show ?thesis by (simp add: m1 Let_def)
    qed
  qed
qed

lemma ParseUint_digits_syntax:
  "list_all isDigit ds \<Longrightarrow> decimalFrom n ds < 2 ^ 64 \<Longrightarrow> \<not> isDigit c \<Longrightarrow>
   ParseUint_digits n (ds @ c # rest) = (0, Some ErrSyntax)"
proof (induction ds arbitrary: n)
  case Nil
  then show ?case by simp
next
  case (Cons d ds)
  let ?n1 = "n * 10 + digitVal d"
  from Cons.prems have dig: "isDigit d" and rest: "list_all isDigit ds" by simp_all
  have "?n1 \<le> decimalFrom ?n1 ds" by (rule decimalFrom_ge)
  with Cons.prems(2) have small: "?n1 < 18446744073709551616"
    by (simp add: decimalFrom_Cons)
  then have nc: "\<not> cutoff \<le> n" by (simp add: cutoff_val)
  from small have m1: "(n * 10) mod 18446744073709551616 = n * 10" by simp
  from small have m2: "?n1 mod 18446744073709551616 = ?n1" by simp
  from Cons.prems(2) have "decimalFrom ?n1 ds < 2 ^ 64" by (simp add: decimalFrom_Cons)
  with rest Cons.prems(3) have "ParseUint_digits ?n1 (ds @ c # rest) = (0, Some ErrSyntax)"
    by (intro Cons.IH) simp_all
  then show ?case
    using dig nc small by (simp add: m1 m2 maxVal_val Let_def)
qed


lemma ParseUint_octet: "octet_token t \<Longrightarrow> ParseUint t = (decimalValue t, None)"
  unfolding octet_token_def numeral_token_def decimalValue_def ParseUint_def
  by (simp add: ParseUint_digits_fits)

lemma ParseUint_out_of_range: "out_of_range_token t \<Longrightarrow> 255 < fst (ParseUint t)"
proof -
  assume a: "out_of_range_token t"
  then have ne: "t \<noteq> []" and dig: "list_all isDigit t" and big: "255 < decimalFrom 0 t"
    by (simp_all add: out_of_range_token_def numeral_token_def decimalValue_def)
  show ?thesis
  proof (cases "decimalFrom 0 t < 2 ^ 64")
    case True
    with dig have "ParseUint_digits 0 t = (decimalFrom 0 t, None)"
      by (rule ParseUint_digits_fits)
    with ne big show ?thesis by (simp add: ParseUint_def)
  next
    case False
    with dig have "ParseUint_digits 0 (t @ []) = (maxVal, Some ErrRange)"
      by (intro ParseUint_digits_overflow) simp_all
    with ne show ?thesis by (simp add: ParseUint_def maxVal_val)
  qed
qed

lemma malformed_split:
  "malformed_token t \<Longrightarrow> t \<noteq> [] \<Longrightarrow>
   \<exists>c rest. t = takeWhile isDigit t @ c # rest \<and> \<not> isDigit c"
proof -
  assume "malformed_token t" and "t \<noteq> []"
  then have "\<not> list_all isDigit t" by (simp add: malformed_token_def numeral_token_def)
  then have "dropWhile isDigit t \<noteq> []" by (simp add: list_all_iff)
  then obtain c rest where d: "dropWhile isDigit t = c # rest"
    by (cases "dropWhile isDigit t") auto
  then have "\<not> isDigit c" using hd_dropWhile [of isDigit t] by auto
  moreover have "t = takeWhile isDigit t @ c # rest"
    using takeWhile_dropWhile_id [of isDigit t] d by simp
  ultimately show ?thesis by blast
qed

lemma ParseUint_malformed:
  assumes "malformed_token t" and "decimalValue (takeWhile isDigit t) < 2 ^ 64"
  shows "ParseUint t = (0, Some ErrSyntax)"
proof (cases "t = []")
  case True
  then show ?thesis by (simp add: ParseUint_def)
next
  case False
  with assms(1) obtain c rest where t: "t = takeWhile isDigit t @ c # rest" and c: "\<not> isDigit c"
    using malformed_split by blast
  have "list_all isDigit (takeWhile isDigit t)"
    by (simp add: list_all_iff) (meson set_takeWhileD)
  with assms(2) c
  have "ParseUint_digits 0 (takeWhile isDigit t @ c # rest) = (0, Some ErrSyntax)"
    by (intro ParseUint_digits_syntax) (simp_all add: decimalValue_def)
  with t False show ?thesis by (simp add: ParseUint_def)
qed

lemma ParseUint_malformed_overflow:
  assumes "2 ^ 64 \<le> decimalValue (takeWhile isDigit t)"
  shows "ParseUint t = (maxVal, Some ErrRange)"
proof -
  have ne: "t \<noteq> []" using assms by (auto simp: decimalValue_def decimalFrom_Nil)
  have "list_all isDigit (takeWhile isDigit t)"
    by (simp add: list_all_iff) (meson set_takeWhileD)
  with assms
  have "ParseUint_digits 0 (takeWhile isDigit t @ dropWhile isDigit t) = (maxVal, Some ErrRange)"
    by (intro ParseUint_digits_overflow) (simp_all add: decimalValue_def)
  with ne show ?thesis by (simp add: ParseUint_def)
qed

lemma IPv4ToInt_loop_octets:
  "list_all octet_token pre \<Longrightarrow>
   IPv4ToInt_loop (pre @ rest) bytes =
     IPv4ToInt_loop rest (bytes @ map (\<lambda>t. of_nat (decimalValue t)) pre)"
proof (induction pre arbitrary: bytes)
  case Nil
  show ?case by simp
next
  case (Cons p pre)
  then have p: "octet_token p" and pre: "list_all octet_token pre" by simp_all
  from p have "decimalValue p \<le> 255" by (simp add: octet_token_def)
  with ParseUint_octet [OF p] Cons.IH [OF pre] show ?case by simp
qed

lemma IPv4ToInt_loop_out_of_range:
  "list_all octet_token pre \<Longrightarrow> out_of_range_token t \<Longrightarrow>
   IPv4ToInt_loop (pre @ t # post) bytes = Inl (Err ErrOutOfRange)"
  using ParseUint_out_of_range [of t]
  by (auto simp: IPv4ToInt_loop_octets split: prod.splits)

lemma IPv4ToInt_loop_malformed:
  "list_all octet_token pre \<Longrightarrow> malformed_token t \<Longrightarrow>
   decimalValue (takeWhile isDigit t) < 2 ^ 64 \<Longrightarrow>
   IPv4ToInt_loop (pre @ t # post) bytes = Inl (Err ErrInvalidSyntax)"
  using ParseUint_malformed [of t]
  by (simp add: IPv4ToInt_loop_octets convertStrconvError_def)

lemma IPv4ToInt_loop_malformed_overflow:
  "list_all octet_token pre \<Longrightarrow> 2 ^ 64 \<le> decimalValue (takeWhile isDigit t) \<Longrightarrow>
   IPv4ToInt_loop (pre @ t # post) bytes = Inl (Err ErrOutOfRange)"
  using ParseUint_malformed_overflow [of t]
  by (simp add: IPv4ToInt_loop_octets maxVal_val)

lemmas IPv4ToInt_eval =
  IPv4ToInt_def ParseUint_def isDigit_def digitVal_def cutoff_def maxUint64_def maxVal_def
  IntSize_def BigEndian_Uint32_def convertStrconvError_def

text \<open>
  C8, amended. Let the tokens before token \<open>t\<close> of the split input all be octets, so
  that the loop reaches \<open>t\<close>. If \<open>t\<close> is a decimal numeral with a value above 255,
  \<open>IPv4ToInt\<close> fails with \<open>ErrOutOfRange\<close>. If \<open>t\<close> is empty or holds a byte that is
  not a decimal digit (a sign included), it fails with \<open>ErrInvalidSyntax\<close> provided the
  digits before the first such byte denote a value below \<open>2^64\<close>, and with
  \<open>ErrOutOfRange\<close> when they denote \<open>2^64\<close> or more. Parsing \<open>-4\<close> and the empty string
  yields \<open>ErrInvalidSyntax\<close>, parsing \<open>256.168.0.1\<close> yields \<open>ErrOutOfRange\<close>.
\<close>

theorem IPv4ToInt_token_errors:
  "(\<forall>addrString pre t post.
      Split addrString = pre @ t # post \<and> list_all octet_token pre \<longrightarrow>
        (out_of_range_token t \<longrightarrow> IPv4ToInt addrString = Inl (Err ErrOutOfRange))
      \<and> (malformed_token t \<and> decimalValue (takeWhile isDigit t) < 2 ^ 64 \<longrightarrow>
           IPv4ToInt addrString = Inl (Err ErrInvalidSyntax))
      \<and> (malformed_token t \<and> 2 ^ 64 \<le> decimalValue (takeWhile isDigit t) \<longrightarrow>
           IPv4ToInt addrString = Inl (Err ErrOutOfRange)))
   \<and> IPv4ToInt ''-4'' = Inl (Err ErrInvalidSyntax)
   \<and> IPv4ToInt [] = Inl (Err ErrInvalidSyntax)
   \<and> IPv4ToInt ''256.168.0.1'' = Inl (Err ErrOutOfRange)"
proof -
  have ex1: "IPv4ToInt ''-4'' = Inl (Err ErrInvalidSyntax)" by (simp add: IPv4ToInt_eval)
  have ex2: "IPv4ToInt [] = Inl (Err ErrInvalidSyntax)" by (simp add: IPv4ToInt_eval)
  have ex3: "IPv4ToInt ''256.168.0.1'' = Inl (Err ErrOutOfRange)" by (simp add: IPv4ToInt_eval)
  have gen: "(out_of_range_token t \<longrightarrow> IPv4ToInt addrString = Inl (Err ErrOutOfRange))
      \<and> (malformed_token t \<and> decimalValue (takeWhile isDigit t) < 2 ^ 64 \<longrightarrow>
           IPv4ToInt addrString = Inl (Err ErrInvalidSyntax))
      \<and> (malformed_token t \<and> 2 ^ 64 \<le> decimalValue (takeWhile isDigit t) \<longrightarrow>
           IPv4ToInt addrString = Inl (Err ErrOutOfRange))"
    if "Split addrString = pre @ t # post" and "list_all octet_token pre"
    for addrString pre t post
    using that
    by (simp add: IPv4ToInt_def IPv4ToInt_loop_out_of_range IPv4ToInt_loop_malformed
        IPv4ToInt_loop_malformed_overflow)
  from gen ex1 ex2 ex3 show ?thesis by blast
qed

text \<open>
  The amended C8 at concrete inputs whose second token is out of range, holds a letter,
  holds a sign, is empty, and holds a letter after twenty nines.
\<close>

theorem IPv4ToInt_token_errors_witness:
  "IPv4ToInt ''192.300.0.1'' = Inl (Err ErrOutOfRange)
   \<and> IPv4ToInt ''192.16x.0.1'' = Inl (Err ErrInvalidSyntax)
   \<and> IPv4ToInt ''192.-4.0.1'' = Inl (Err ErrInvalidSyntax)
   \<and> IPv4ToInt ''192..0.1'' = Inl (Err ErrInvalidSyntax)
   \<and> IPv4ToInt ''192.99999999999999999999x.0.1'' = Inl (Err ErrOutOfRange)"
proof -
  note ev = octet_token_def numeral_token_def out_of_range_token_def malformed_token_def
    decimalValue_def decimalFrom_def isDigit_def digitVal_def
  have pre: "list_all octet_token [''192'']" by (simp add: ev)
  have s1: "Split ''192.300.0.1'' = [''192''] @ ''300'' # [''0'', ''1'']" by simp
  have s2: "Split ''192.16x.0.1'' = [''192''] @ ''16x'' # [''0'', ''1'']" by simp
  have s3: "Split ''192.-4.0.1'' = [''192''] @ ''-4'' # [''0'', ''1'']" by simp
  have s4: "Split ''192..0.1'' = [''192''] @ [] # [''0'', ''1'']" by simp
  have s5: "Split ''192.99999999999999999999x.0.1'' =
            [''192''] @ ''99999999999999999999x'' # [''0'', ''1'']" by simp
  have t1: "out_of_range_token ''300''" by (simp add: ev)
  have t2: "malformed_token ''16x'' \<and> decimalValue (takeWhile isDigit ''16x'') < 2 ^ 64"
    by (simp add: ev)
  have t3: "malformed_token ''-4'' \<and> decimalValue (takeWhile isDigit ''-4'') < 2 ^ 64"
    by (simp add: ev)
  have t4: "malformed_token [] \<and> decimalValue (takeWhile isDigit []) < 2 ^ 64"
    by (simp add: ev)
  have t5: "malformed_token ''99999999999999999999x''
            \<and> 2 ^ 64 \<le> decimalValue (takeWhile isDigit ''99999999999999999999x'')"
    by (simp add: ev)
  from IPv4ToInt_token_errors pre s1 s2 s3 s4 s5 t1 t2 t3 t4 t5 show ?thesis by blast
qed

text \<open>
  C8 as stated fails: the first token of \<open>99999999999999999999x.168.0.1\<close> holds the
  byte \<open>x\<close>, which is not a digit, and the call fails with \<open>ErrOutOfRange\<close>, not with
  \<open>ErrInvalidSyntax\<close>: \<^verbatim>\<open>strconv.ParseUint\<close> reports the overflow at the twentieth digit
  before it reads the \<open>x\<close>.
\<close>

theorem IPv4ToInt_nondigit_after_overflow:
  "Split ''99999999999999999999x.168.0.1'' = [''99999999999999999999x'', ''168'', ''0'', ''1'']
   \<and> malformed_token ''99999999999999999999x''
   \<and> IPv4ToInt ''99999999999999999999x.168.0.1'' = Inl (Err ErrOutOfRange)"
  by (simp add: IPv4ToInt_eval malformed_token_def numeral_token_def)


lemma IPv4ToInt_loop_bad_token:
  assumes "list_all octet_token pre" and "\<not> octet_token t"
  shows "\<exists>e. IPv4ToInt_loop (pre @ t # post) bytes = Inl (Err e)"
proof (cases "numeral_token t")
  case True
  with assms(2) have "out_of_range_token t"
    by (simp add: octet_token_def out_of_range_token_def)
  with assms(1) show ?thesis by (simp add: IPv4ToInt_loop_out_of_range)
next
  case False
  then have m: "malformed_token t" by (simp add: malformed_token_def)
  show ?thesis
  proof (cases "decimalValue (takeWhile isDigit t) < 2 ^ 64")
    case True
    with assms(1) m show ?thesis by (simp add: IPv4ToInt_loop_malformed)
  next
    case False
    with assms(1) show ?thesis by (simp add: IPv4ToInt_loop_malformed_overflow)
  qed
qed

lemma IPv4ToInt_loop_not_all_octets:
  assumes "\<not> list_all octet_token ts"
  shows "\<exists>e. IPv4ToInt_loop ts bytes = Inl (Err e)"
proof -
  from assms have "\<exists>t\<in>set ts. \<not> octet_token t" by (simp add: list_all_iff)
  then obtain pre t post where ts: "ts = pre @ t # post" and bad: "\<not> octet_token t"
    and pre: "\<forall>p\<in>set pre. \<not> \<not> octet_token p"
    using split_list_first_prop [of ts "\<lambda>t. \<not> octet_token t"] by blast
  from pre have "list_all octet_token pre" by (simp add: list_all_iff)
  then show ?thesis unfolding ts using bad by (rule IPv4ToInt_loop_bad_token)
qed

lemma IPv4ToInt_loop_all_octets:
  "list_all octet_token ts \<Longrightarrow>
   IPv4ToInt_loop ts bytes = Inr (bytes @ map (\<lambda>t. of_nat (decimalValue t)) ts)"
  using IPv4ToInt_loop_octets [of ts "[]" bytes] by simp

text \<open>
  C10 fails on the code. \<open>IPv4ToInt\<close> panics exactly on the inputs that split into
  fewer than four tokens, all of them octets: no token is rejected, and
  \<^verbatim>\<open>binary.BigEndian.Uint32\<close> indexes a slice of fewer than four bytes. The input
  \<open>1.2.3\<close> is one of them.
\<close>

theorem IPv4ToInt_panics_iff:
  "(IPv4ToInt addrString = Inl Panic) =
     (list_all octet_token (Split addrString) \<and> length (Split addrString) < 4)
   \<and> Split ''1.2.3'' = [''1'', ''2'', ''3'']
   \<and> IPv4ToInt ''1.2.3'' = Inl Panic"
proof -
  have "(IPv4ToInt addrString = Inl Panic) =
     (list_all octet_token (Split addrString) \<and> length (Split addrString) < 4)"
  proof (cases "list_all octet_token (Split addrString)")
    case True
    then show ?thesis
      by (simp add: IPv4ToInt_def IPv4ToInt_loop_all_octets BigEndian_Uint32_def)
  next
    case False
    then obtain e where "IPv4ToInt_loop (Split addrString) [] = Inl (Err e)"
      using IPv4ToInt_loop_not_all_octets by blast
    with False show ?thesis by (simp add: IPv4ToInt_def)
  qed
  moreover have "Split ''1.2.3'' = [''1'', ''2'', ''3'']" by simp
  moreover have "IPv4ToInt ''1.2.3'' = Inl Panic" by (simp add: IPv4ToInt_eval)
  ultimately show ?thesis by blast
qed

text \<open>
  C5 fails on the code. The input \<open>1.2.3.4.5\<close> splits into five tokens and
  \<open>IPv4ToInt\<close> returns the value of \<open>1.2.3.4\<close> without an error, dropping the fifth
  token; the input \<open>192.168.1\<close> splits into three tokens and the call panics instead
  of returning \<open>ErrInvalidSyntax\<close>.
\<close>

theorem IPv4ToInt_token_count_unchecked:
  "length (Split ''1.2.3.4.5'') = 5
   \<and> IPv4ToInt ''1.2.3.4.5'' = Inr 16909060
   \<and> IPv4ToInt ''1.2.3.4'' = Inr 16909060
   \<and> length (Split ''192.168.1'') = 3
   \<and> IPv4ToInt ''192.168.1'' = Inl Panic"
  by (simp add: IPv4ToInt_eval)

section \<open>Properties of the floating-point computations\<close>

lemma bitlen_0: "bitlen 0 = 0"
  by (simp add: bitlen.simps)

lemma bitlen_pos: "0 < n \<Longrightarrow> bitlen n = Suc (bitlen (n div 2))"
  by (subst bitlen.simps) simp

lemma bitlen_bounds: "0 < n \<Longrightarrow> 2 ^ (bitlen n - 1) \<le> n \<and> n < 2 ^ bitlen n"
proof (induction n rule: bitlen.induct)
  case (1 n)
  show ?case
  proof (cases "n div 2 = 0")
    case True
    with "1.prems" have "n = 1" by (simp add: div_eq_0_iff) 
    then show ?thesis by (simp add: bitlen_pos bitlen_0)
  next
    case False
    then have pos: "0 < n div 2" by simp
    with "1.IH" "1.prems" have ih: "2 ^ (bitlen (n div 2) - 1) \<le> n div 2"
      "n div 2 < 2 ^ bitlen (n div 2)" by simp_all
    from pos have bl: "0 < bitlen (n div 2)" by (simp add: bitlen_pos)
    have "2 ^ (bitlen n - 1) = (2::nat) ^ bitlen (n div 2)"
      using "1.prems" by (simp add: bitlen_pos)
    also have "\<dots> = 2 * 2 ^ (bitlen (n div 2) - 1)"
      using bl by (cases "bitlen (n div 2)") simp_all
    also have "\<dots> \<le> 2 * (n div 2)" using ih(1) by simp
    also have "\<dots> \<le> n" by simp
    finally have lo: "2 ^ (bitlen n - 1) \<le> n" .
    have "n < 2 * (n div 2) + 2" by arith
    also have "\<dots> \<le> 2 * 2 ^ bitlen (n div 2)" using ih(2) by simp
    also have "\<dots> = 2 ^ bitlen n" using "1.prems" by (simp add: bitlen_pos)
    finally show ?thesis using lo by simp
  qed
qed

lemma bitlen_1: "bitlen (Suc 0) = 1"
  by (simp add: bitlen_pos bitlen_0)

lemma pow2_nonneg: "0 \<le> e \<Longrightarrow> pow2 e = 2 ^ nat e"
  by (simp add: pow2_def)

lemma pow2_nonpos: "e \<le> 0 \<Longrightarrow> pow2 e = 1 / 2 ^ nat (- e)"
  by (cases "e = 0") (simp_all add: pow2_def)

lemma floor_log2_of_int:
  assumes "0 < n"
  shows "floor_log2 (of_int n) = int (bitlen (nat n)) - 1"
proof -
  let ?b = "bitlen (nat n)"
  from assms have pos: "0 < nat n" by simp
  then have b: "0 < ?b" by (simp add: bitlen_pos)
  have "(2::nat) ^ (?b - 1) \<le> nat n" using bitlen_bounds [OF pos] by simp
  then have "int (2 ^ (?b - 1)) \<le> n" using assms by linarith
  then have "(of_int (int (2 ^ (?b - 1))) :: rat) \<le> of_int n" by (simp only: of_int_le_iff)
  then have le: "pow2 (int ?b - 1) \<le> of_int n"
    using b by (simp add: pow2_nonneg nat_diff_distrib)
  show ?thesis
    using le by (simp add: floor_log2_def bitlen_1 Let_def)
qed

lemma round_half_even_of_int: "round_half_even (of_int k) = k"
  by (simp add: round_half_even_def)

lemma round_float64_of_int:
  assumes "0 \<le> n" and "n < 2 ^ 53"
  shows "round_float64 (of_int n) = Finite (of_int n)"
proof (cases "n = 0")
  case True
  then show ?thesis by (simp add: round_float64_def)
next
  case False
  with assms have pos: "0 < n" by simp
  let ?b = "bitlen (nat n)"
  from pos have npos: "0 < nat n" by simp
  then have b: "0 < ?b" by (simp add: bitlen_pos)
  have "(2::nat) ^ (?b - 1) \<le> nat n" using bitlen_bounds [OF npos] by simp
  also have "nat n < 2 ^ 53" using assms by (simp add: nat_less_iff)
  finally have "(2::nat) ^ (?b - 1) < 2 ^ 53" .
  then have "?b - 1 < 53" by (rule power_less_imp_less_exp [rotated]) simp
  then have b53: "?b \<le> 53" by simp
  define k where "k = 53 - ?b"
  have e: "floor_log2 (of_int n) = int ?b - 1" using pos by (rule floor_log2_of_int)
  have emax: "max (int ?b - 1) (- 1022) = int ?b - 1" by simp
  have ulp: "pow2 (int ?b - 1 - 52) = 1 / 2 ^ k"
    using b53 by (simp add: pow2_nonpos k_def nat_diff_distrib) 
  have quot: "(of_int n :: rat) / (1 / 2 ^ k) = of_int (n * 2 ^ k)" by simp
  have r: "of_int (round_half_even (of_int n / (1 / 2 ^ k))) * (1 / 2 ^ k) = (of_int n :: rat)"
    unfolding quot round_half_even_of_int by simp
  have "(of_int n :: rat) < 2 ^ 53" using assms(2) by (metis of_int_less_numeral_power_cancel_iff)
  also have "\<dots> < 2 ^ 1024" by (rule power_strict_increasing) simp_all
  finally have small: "\<not> pow2 1024 \<le> (of_int n :: rat)" by (simp add: pow2_nonneg)
  have abs: "\<bar>of_int n :: rat\<bar> = of_int n" using pos by simp
  have nz: "(of_int n :: rat) \<noteq> 0" using pos by simp
  have qpos: "0 < (of_int n :: rat)" using pos by simp
  show ?thesis
    unfolding round_float64_def Let_def abs e emax ulp r
    using nz qpos small by simp
qed


lemma trunc_toward_zero_of_int: "trunc_toward_zero (of_int k) = k"
  by (simp add: trunc_toward_zero_def)

lemma float64_of_int_small:
  "0 \<le> n \<Longrightarrow> n \<le> 2 ^ 32 \<Longrightarrow> float64_of_int n = Finite (of_int n)"
  unfolding float64_of_int_def by (rule round_float64_of_int) simp_all

lemma Exp2_of_int:
  assumes "0 \<le> j" and "j \<le> 32"
  shows "Exp2 (Finite (of_int j)) = Finite (2 ^ nat j)"
proof -
  have a: "\<not> 1023 < (of_int j :: rat)" using assms by simp
  have b: "\<not> (of_int j :: rat) < - 1074" using assms by simp
  show ?thesis using a b assms by (simp add: pow2_nonneg)
qed

lemma float64_sub_32:
  assumes "0 \<le> p" and "p \<le> 32"
  shows "float64_sub (Finite 32) (Finite (of_int p)) = Finite (of_int (32 - p))"
proof -
  have "round_float64 (of_int (32 - p)) = Finite (of_int (32 - p))"
    using assms by (intro round_float64_of_int) simp_all
  then show ?thesis by simp
qed

lemma Exp2_32_minus:
  assumes "0 \<le> p" and "p \<le> 32"
  shows "Exp2 (float64_sub (Finite 32) (float64_of_int p)) = Finite (2 ^ nat (32 - p))"
proof -
  have f: "float64_of_int p = Finite (of_int p)"
    using assms by (intro float64_of_int_small) simp_all
  have "Exp2 (Finite (of_int (32 - p))) = Finite (2 ^ nat (32 - p))"
    using assms by (intro Exp2_of_int) simp_all
  then show ?thesis
    by (simp only: f float64_sub_32 [OF assms])
qed

lemma getSubnetCount_prefix_lengths:
  assumes "0 \<le> p" and "p < c" and "c \<le> 32"
  shows "getSubnetCount p c = Inr (2 ^ nat (c - p))"
proof -
  have ep: "Exp2 (float64_sub (Finite 32) (float64_of_int p)) = Finite (2 ^ nat (32 - p))"
    using assms by (intro Exp2_32_minus) simp_all
  have ec: "Exp2 (float64_sub (Finite 32) (float64_of_int c)) = Finite (2 ^ nat (32 - c))"
    using assms by (intro Exp2_32_minus) simp_all
  have "nat (32 - p) = nat (32 - c) + nat (c - p)" using assms by simp
  then have "(2::rat) ^ nat (32 - p) / 2 ^ nat (32 - c) = 2 ^ nat (c - p)"
    by (simp add: power_add)
  also have "\<dots> = of_int (2 ^ nat (c - p))" by simp
  finally have q: "(2::rat) ^ nat (32 - p) / 2 ^ nat (32 - c) = of_int (2 ^ nat (c - p))" .
  have "nat (c - p) \<le> 32" using assms by simp
  then have le: "(2::int) ^ nat (c - p) \<le> 2 ^ 32" by (rule power_increasing) simp
  then have r: "round_float64 (of_int (2 ^ nat (c - p))) = Finite (of_int (2 ^ nat (c - p)))"
    by (intro round_float64_of_int) simp_all
  have d: "float64_div (Finite (2 ^ nat (32 - p))) (Finite (2 ^ nat (32 - c)))
           = Finite (of_int (2 ^ nat (c - p)))"
    by (simp only: float64_div.simps q r) simp
  have pos: "(0::int) < 2 ^ nat (c - p)" by simp
  have c1: "- (2 ^ 63) \<le> (2::int) ^ nat (c - p)" by (rule order_trans [of _ 0]) simp_all
  have c2: "(2::int) ^ nat (c - p) < 2 ^ 63" using le by simp
  have "int_of_float64 (Finite (of_int (2 ^ nat (c - p)))) = Inr (2 ^ nat (c - p))"
    by (simp only: int_of_float64.simps trunc_toward_zero_of_int c1 c2) simp
  then have "getSubnetCount p c =
      (if c \<le> p then Inl (Err ErrPrefixTooSmall) else Inr (2 ^ nat (c - p)))"
    by (simp only: getSubnetCount_def ep ec d)
  then show ?thesis using assms by simp
qed

lemma prefixToMask_prefix_lengths:
  assumes "N \<le> 32"
  shows "prefixToMask (of_nat N) = Inr (of_int (2 ^ 32 - 2 ^ (32 - N)))"
proof -
  have "(of_nat N :: uint32) \<le> 32"
    using assms by (simp add: word_le_nat_alt unat_of_nat)
  then have "uint (32 - of_nat N :: uint32) = 32 - uint (of_nat N :: uint32)"
    by (simp add: uint_minus_simple_alt)
  also have "uint (of_nat N :: uint32) = int N"
    using assms by (simp add: uint_nat unat_of_nat)
  finally have u: "uint (32 - of_nat N :: uint32) = int (32 - N)" using assms by simp
  have f: "float64_of_int (int (32 - N)) = Finite (of_int (int (32 - N)))"
    by (intro float64_of_int_small) simp_all
  have e1: "Exp2 (Finite (of_int (int (32 - N)))) = Finite (2 ^ (32 - N))"
    using Exp2_of_int [of "int (32 - N)"] by simp
  have e2: "Exp2 (Finite 32) = Finite (2 ^ 32)"
    using Exp2_of_int [of 32] by simp
  have le: "(2::int) ^ (32 - N) \<le> 2 ^ 32" by (rule power_increasing) simp_all
  have pos: "(0::int) < 2 ^ (32 - N)" by simp
  have "(2::rat) ^ 32 - 2 ^ (32 - N) = of_int (2 ^ 32 - 2 ^ (32 - N))" by simp
  moreover have "round_float64 (of_int (2 ^ 32 - 2 ^ (32 - N))) = Finite (of_int (2 ^ 32 - 2 ^ (32 - N)))"
  proof (rule round_float64_of_int)
    show "(0::int) \<le> 2 ^ 32 - 2 ^ (32 - N)" using le by simp
    have "(2::int) ^ 32 - 2 ^ (32 - N) < 2 ^ 32" by simp
    then show "(2::int) ^ 32 - 2 ^ (32 - N) < 2 ^ 53" by (rule less_trans) simp
  qed
  ultimately have s: "float64_sub (Finite (2 ^ 32)) (Finite (2 ^ (32 - N)))
      = Finite (of_int (2 ^ 32 - 2 ^ (32 - N)))"
    by (simp only: float64_sub.simps)
  have c1: "(0::int) \<le> 2 ^ 32 - 2 ^ (32 - N)" using le by simp
  have c2: "(2::int) ^ 32 - 2 ^ (32 - N) < 2 ^ 32" using pos by simp
  have "uint32_of_float64 (Finite (of_int (2 ^ 32 - 2 ^ (32 - N))))
        = Inr (of_int (2 ^ 32 - 2 ^ (32 - N)))"
    by (simp only: uint32_of_float64.simps trunc_toward_zero_of_int c1 c2) simp
  then show ?thesis
    by (simp only: prefixToMask_def u f e1 e2 s)
qed

section \<open>Properties of the subnet partitioner\<close>

lemma count_ones_le: "count_ones n x \<le> n"
  by (induction n) simp_all

lemma OnesCount32_range: "0 \<le> OnesCount32 x \<and> OnesCount32 x \<le> 32"
  using count_ones_le [of 32 x] by (simp add: OnesCount32_def)

lemma broadcast_NewNetwork:
  "deref_Addr (broadcast (NewNetwork a m)) = Inr ((a AND m) + NOT m)"
  by (simp add: NewNetwork_def deref_Addr_def Let_def)

lemma CreateSubnets_loop_chain:
  assumes "int (length subnets) = n" and "0 \<le> i" and "i \<le> n"
    and "i < n \<longrightarrow> next_address subnets i av = Inr a'"
  shows "CreateSubnets_loop i n av sm subnets =
           Inr (take (nat i) subnets @ subnet_chain (nat (n - i)) a' sm)"
  using assms
proof (induction "nat (n - i)" arbitrary: i av a' subnets)
  case 0
  then have "i = n" by simp
  with "0.prems" show ?case by (simp add: CreateSubnets_loop.simps)
next
  case (Suc k)
  then have lt: "i < n" by linarith
  with Suc.prems have na: "next_address subnets i av = Inr a'" by simp
  let ?s' = "subnets[nat i := NewNetwork a' sm]"
  have st: "store_Network subnets i (NewNetwork a' sm) = Inr ?s'"
    using lt Suc.prems by (simp add: store_Network_def)
  have unfold: "CreateSubnets_loop i n av sm subnets = CreateSubnets_loop (i + 1) n a' sm ?s'"
    using lt by (subst CreateSubnets_loop.simps) (simp add: na st)
  let ?a'' = "(a' AND sm) + NOT sm + 1"
  have k: "k = nat (n - (i + 1))" using Suc.hyps(2) by linarith
  have idx: "nat (i + 1 - 1) = nat i" by simp
  have nxt: "i + 1 < n \<longrightarrow> next_address ?s' (i + 1) a' = Inr ?a''"
    using Suc.prems lt
    by (simp add: next_address_def index_Network_def broadcast_NewNetwork)
  have ih: "CreateSubnets_loop (i + 1) n a' sm ?s' =
              Inr (take (nat (i + 1)) ?s' @ subnet_chain (nat (n - (i + 1))) ?a'' sm)"
    using Suc.prems lt nxt by (intro Suc.hyps(1) [OF k]) simp_all
  have len: "nat i < length subnets" using lt Suc.prems by linarith
  have tk: "take (nat (i + 1)) ?s' = take (nat i) subnets @ [NewNetwork a' sm]"
    using len Suc.prems(2) by (simp add: nat_add_distrib take_Suc_conv_app_nth)
  have ch: "subnet_chain (nat (n - i)) a' sm =
              NewNetwork a' sm # subnet_chain (nat (n - (i + 1))) ?a'' sm"
    using Suc.hyps(2) k by (metis subnet_chain.simps(2))
  show ?case by (simp only: unfold ih tk ch) simp
qed

lemma make_Networks_nonneg:
  "0 \<le> n \<Longrightarrow> make_Networks n = Inr (replicate (nat n) zero_Network)"
  by (simp add: make_Networks_def)

lemma CreateSubnets_chain:
  assumes "OnesCount32 m < OnesCount32 sm"
  shows "CreateSubnets a m sm =
           Inr (subnet_chain (2 ^ nat (OnesCount32 sm - OnesCount32 m)) a sm)"
proof -
  let ?n = "(2::int) ^ nat (OnesCount32 sm - OnesCount32 m)"
  have g: "getSubnetCount (OnesCount32 m) (OnesCount32 sm) = Inr ?n"
    using assms OnesCount32_range [of m] OnesCount32_range [of sm]
    by (intro getSubnetCount_prefix_lengths) simp_all
  have nn: "0 \<le> ?n" by simp
  have loop: "CreateSubnets_loop 0 ?n a sm (replicate (nat ?n) zero_Network) =
        Inr (take (nat 0) (replicate (nat ?n) zero_Network) @ subnet_chain (nat (?n - 0)) a sm)"
    by (rule CreateSubnets_loop_chain) (simp_all add: next_address_def)
  have nat_n: "nat ?n = 2 ^ nat (OnesCount32 sm - OnesCount32 m)"
    by (simp add: nat_power_eq)
  have "CreateSubnets a m sm = CreateSubnets_loop 0 ?n a sm (replicate (nat ?n) zero_Network)"
    by (simp only: CreateSubnets_def g make_Networks_nonneg [OF nn] sum.case)
  also have "\<dots> = Inr (subnet_chain (nat ?n) a sm)"
    by (simp only: loop) simp
  finally show ?thesis by (simp only: nat_n)
qed

lemma CreateSubnets_too_small:
  assumes "OnesCount32 sm \<le> OnesCount32 m"
  shows "CreateSubnets a m sm = Inl (Err ErrPrefixTooSmall)"
  using assms by (simp add: CreateSubnets_def getSubnetCount_def)

lemma CreateSubnets_success:
  assumes "CreateSubnets a m sm = Inr subnets"
  shows "OnesCount32 m < OnesCount32 sm
         \<and> subnets = subnet_chain (2 ^ nat (OnesCount32 sm - OnesCount32 m)) a sm"
proof (cases "OnesCount32 m < OnesCount32 sm")
  case True
  with assms CreateSubnets_chain [OF True, of a] show ?thesis by simp
next
  case False
  then have "CreateSubnets a m sm = Inl (Err ErrPrefixTooSmall)"
    by (intro CreateSubnets_too_small) simp
  with assms show ?thesis by simp
qed

lemma length_subnet_chain: "length (subnet_chain k a m) = k"
  by (induction k arbitrary: a) simp_all

lemma subnet_chain_first: "0 < k \<Longrightarrow> subnet_chain k a m ! 0 = NewNetwork a m"
  by (cases k) simp_all

lemma subnet_chain_step:
  "Suc i < k \<Longrightarrow>
   \<exists>p. subnet_chain k a m ! i = NewNetwork p m
     \<and> subnet_chain k a m ! Suc i = NewNetwork ((p AND m) + NOT m + 1) m"
proof (induction k arbitrary: a i)
  case 0
  then show ?case by simp
next
  case (Suc k)
  show ?case
  proof (cases i)
    case 0
    with Suc.prems have "0 < k" by simp
    then have "subnet_chain k ((a AND m) + NOT m + 1) m ! 0
               = NewNetwork ((a AND m) + NOT m + 1) m"
      by (rule subnet_chain_first)
    with 0 show ?thesis by (intro exI [of _ a]) simp
  next
    case (Suc j)
    with Suc.prems have "Suc j < k" by simp
    from Suc.IH [OF this, of "(a AND m) + NOT m + 1"] obtain p where
      "subnet_chain k ((a AND m) + NOT m + 1) m ! j = NewNetwork p m"
      "subnet_chain k ((a AND m) + NOT m + 1) m ! Suc j = NewNetwork ((p AND m) + NOT m + 1) m"
      by blast
    with Suc show ?thesis by (intro exI [of _ p]) simp
  qed
qed

lemma OnesCount32_slash24: "OnesCount32 4294967040 = 24"
  by (simp add: OnesCount32_def eval_nat_numeral bit_numeral_simps)

lemma OnesCount32_slash25: "OnesCount32 4294967168 = 25"
  by (simp add: OnesCount32_def eval_nat_numeral bit_numeral_simps)

lemma CreateSubnets_slash24_slash25:
  "CreateSubnets 3232235521 4294967040 4294967168 =
     Inr [NewNetwork 3232235521 4294967168, NewNetwork 3232235648 4294967168]"
proof -
  have "CreateSubnets 3232235521 4294967040 4294967168 =
          Inr (subnet_chain (2 ^ nat (OnesCount32 4294967168 - OnesCount32 4294967040))
                 3232235521 4294967168)"
    by (rule CreateSubnets_chain) (simp add: OnesCount32_slash24 OnesCount32_slash25)
  also have "nat (OnesCount32 4294967168 - OnesCount32 4294967040) = 1"
    by (simp add: OnesCount32_slash24 OnesCount32_slash25)
  also have "subnet_chain (2 ^ 1) 3232235521 4294967168 =
               [NewNetwork 3232235521 4294967168,
                NewNetwork ((3232235521 AND 4294967168) + NOT 4294967168 + 1) 4294967168]"
    by (simp only: power_one_right numeral_2_eq_2 subnet_chain.simps)
  also have "(3232235521 AND 4294967168) + NOT 4294967168 + 1 = (3232235648::uint32)"
    by code_simp
  finally show ?thesis .
qed

lemma getSubnetCount_too_small_iff:
  "(getSubnetCount p c = Inl (Err ErrPrefixTooSmall)) = (c \<le> p)"
proof (cases "c \<le> p")
  case True
  then show ?thesis by (simp add: getSubnetCount_def)
next
  case False
  have "int_of_float64 x \<noteq> Inl (Err ErrPrefixTooSmall)" for x
    by (cases x) simp_all
  with False show ?thesis by (simp add: getSubnetCount_def)
qed

text \<open>
  C2 as stated fails: for the base address \<open>192.168.0.1\<close>, parent mask \<open>/24\<close> and child
  mask \<open>/25\<close> the call succeeds and the address field of the first subnet is the base
  address \<open>3232235521\<close> itself, not the parent network address \<open>3232235520\<close>.
\<close>

theorem CreateSubnets_first_address_is_base:
  "CreateSubnets 3232235521 4294967040 4294967168 =
     Inr [NewNetwork 3232235521 4294967168, NewNetwork 3232235648 4294967168]
   \<and> address (NewNetwork 3232235521 4294967168)
       = Some \<lparr>Addr = 3232235521, Description = ''Address''\<rparr>
   \<and> (3232235521 AND 4294967040 :: uint32) = 3232235520
   \<and> (3232235521 :: uint32) \<noteq> 3232235520"
  by (simp add: CreateSubnets_slash24_slash25 NewNetwork_def Let_def)

text \<open>
  C2, amended. For every successful call of \<open>CreateSubnets\<close> the list is not empty,
  the address field of its first element is the base address given by the caller, and
  the network field of its first element is the base address AND the child mask.
\<close>

theorem CreateSubnets_first_subnet:
  assumes "CreateSubnets a m sm = Inr subnets"
  shows "subnets \<noteq> []
         \<and> address (subnets ! 0) = Some \<lparr>Addr = a, Description = ''Address''\<rparr>
         \<and> network (subnets ! 0) = Some \<lparr>Addr = a AND sm, Description = ''Network''\<rparr>"
proof -
  let ?k = "(2::nat) ^ nat (OnesCount32 sm - OnesCount32 m)"
  from assms have s: "subnets = subnet_chain ?k a sm"
    using CreateSubnets_success by blast
  have pos: "0 < ?k" by simp
  then have first: "subnets ! 0 = NewNetwork a sm"
    unfolding s by (rule subnet_chain_first)
  have "length subnets = ?k" unfolding s by (rule length_subnet_chain)
  with pos have "subnets \<noteq> []" by auto
  with first show ?thesis by (simp add: NewNetwork_def Let_def)
qed

text \<open>
  The amended C2 at the base address \<open>192.168.0.1\<close> with the masks \<open>/24\<close> and \<open>/25\<close>.
\<close>

theorem CreateSubnets_first_subnet_witness:
  "CreateSubnets 3232235521 4294967040 4294967168 =
     Inr [NewNetwork 3232235521 4294967168, NewNetwork 3232235648 4294967168]
   \<and> address ([NewNetwork 3232235521 4294967168, NewNetwork 3232235648 4294967168] ! 0)
       = Some \<lparr>Addr = 3232235521, Description = ''Address''\<rparr>
   \<and> network ([NewNetwork 3232235521 4294967168, NewNetwork 3232235648 4294967168] ! 0)
       = Some \<lparr>Addr = 3232235520, Description = ''Network''\<rparr>"
  using CreateSubnets_first_subnet [OF CreateSubnets_slash24_slash25]
    CreateSubnets_slash24_slash25
  by simp

text \<open>
  C3. For every successful call of \<open>CreateSubnets\<close>, subnet 0 is
  \<open>NewNetwork\<close> of the base address and the child mask, every subnet \<open>i > 0\<close> is
  \<open>NewNetwork\<close> of the broadcast address of subnet \<open>i - 1\<close> plus one (modulo \<open>2^32\<close>)
  and the child mask, and so the address field of subnet \<open>i\<close> is the broadcast address
  of subnet \<open>i - 1\<close> plus one.
\<close>

theorem CreateSubnets_contiguous:
  assumes "CreateSubnets a m sm = Inr subnets"
  shows "subnets \<noteq> [] \<and> subnets ! 0 = NewNetwork a sm
         \<and> (\<forall>i. 0 < i \<and> i < length subnets \<longrightarrow>
               (\<exists>b. broadcast (subnets ! (i - 1)) = Some b
                  \<and> subnets ! i = NewNetwork (Addr b + 1) sm
                  \<and> address (subnets ! i)
                      = Some \<lparr>Addr = Addr b + 1, Description = ''Address''\<rparr>))"
proof -
  let ?k = "(2::nat) ^ nat (OnesCount32 sm - OnesCount32 m)"
  from assms have s: "subnets = subnet_chain ?k a sm"
    using CreateSubnets_success by blast
  have len: "length subnets = ?k" unfolding s by (rule length_subnet_chain)
  have pos: "0 < ?k" by simp
  then have first: "subnets ! 0 = NewNetwork a sm"
    unfolding s by (rule subnet_chain_first)
  from len pos have ne: "subnets \<noteq> []" by auto
  have step: "\<exists>b. broadcast (subnets ! (i - 1)) = Some b
                  \<and> subnets ! i = NewNetwork (Addr b + 1) sm
                  \<and> address (subnets ! i)
                      = Some \<lparr>Addr = Addr b + 1, Description = ''Address''\<rparr>"
    if "0 < i" and "i < length subnets" for i
  proof -
    from that obtain j where i: "i = Suc j" by (cases i) simp_all
    with that len have "Suc j < ?k" by simp
    then obtain p where p: "subnets ! j = NewNetwork p sm"
      "subnets ! Suc j = NewNetwork ((p AND sm) + NOT sm + 1) sm"
      unfolding s using subnet_chain_step by blast
    let ?b = "\<lparr>Addr = (p AND sm) + NOT sm, Description = ''Broadcast''\<rparr>"
    have "broadcast (subnets ! (i - 1)) = Some ?b"
      by (simp add: i p NewNetwork_def Let_def)
    moreover have "subnets ! i = NewNetwork (Addr ?b + 1) sm" by (simp add: i p)
    moreover have "address (subnets ! i) = Some \<lparr>Addr = Addr ?b + 1, Description = ''Address''\<rparr>"
      by (simp add: i p NewNetwork_def Let_def)
    ultimately show ?thesis by blast
  qed
  from ne first step show ?thesis by blast
qed

text \<open>
  C3 at the base address \<open>192.168.0.1\<close> with the masks \<open>/24\<close> and \<open>/25\<close>, for the
  pair of subnets 0 and 1.
\<close>

theorem CreateSubnets_contiguous_witness:
  "CreateSubnets 3232235521 4294967040 4294967168 =
     Inr [NewNetwork 3232235521 4294967168, NewNetwork 3232235648 4294967168]
   \<and> [NewNetwork 3232235521 4294967168, NewNetwork 3232235648 4294967168] ! 0
       = NewNetwork 3232235521 4294967168
   \<and> (\<exists>b. broadcast ([NewNetwork 3232235521 4294967168, NewNetwork 3232235648 4294967168] ! 0)
            = Some b
        \<and> [NewNetwork 3232235521 4294967168, NewNetwork 3232235648 4294967168] ! 1
            = NewNetwork (Addr b + 1) 4294967168
        \<and> address ([NewNetwork 3232235521 4294967168, NewNetwork 3232235648 4294967168] ! 1)
            = Some \<lparr>Addr = Addr b + 1, Description = ''Address''\<rparr>)"
proof -
  let ?l = "[NewNetwork 3232235521 4294967168, NewNetwork 3232235648 4294967168]"
  have "(0::nat) < 1 \<and> 1 < length ?l" by simp
  with CreateSubnets_contiguous [OF CreateSubnets_slash24_slash25]
  have "\<exists>b. broadcast (?l ! (1 - 1)) = Some b
            \<and> ?l ! 1 = NewNetwork (Addr b + 1) 4294967168
            \<and> address (?l ! 1) = Some \<lparr>Addr = Addr b + 1, Description = ''Address''\<rparr>"
    by blast
  then show ?thesis using CreateSubnets_slash24_slash25 by simp
qed

text \<open>
  C4. \<open>getSubnetCount\<close> fails with \<open>ErrPrefixTooSmall\<close> exactly when the child prefix
  length is at most the parent prefix length (for all integers), and for prefix
  lengths, which lie between 0 and 32, it otherwise returns 2 to the power of their
  difference: the floating-point quotient is exact there. The bit counts that
  \<open>CreateSubnets\<close> passes are such prefix lengths; \<open>CreateSubnets\<close> returns the failure
  of \<open>getSubnetCount\<close> unchanged, and on success the list has exactly the number of
  elements that \<open>getSubnetCount\<close> returned.
\<close>

theorem getSubnetCount_CreateSubnets_count:
  "(\<forall>p c. (getSubnetCount p c = Inl (Err ErrPrefixTooSmall)) = (c \<le> p))
   \<and> (\<forall>p c. 0 \<le> p \<and> p < c \<and> c \<le> 32 \<longrightarrow> getSubnetCount p c = Inr (2 ^ nat (c - p)))
   \<and> (\<forall>x. 0 \<le> OnesCount32 x \<and> OnesCount32 x \<le> 32)
   \<and> (\<forall>a m sm e. getSubnetCount (OnesCount32 m) (OnesCount32 sm) = Inl e \<longrightarrow>
         CreateSubnets a m sm = Inl e)
   \<and> (\<forall>a m sm subnets. CreateSubnets a m sm = Inr subnets \<longrightarrow>
         getSubnetCount (OnesCount32 m) (OnesCount32 sm) = Inr (int (length subnets))
         \<and> length subnets = 2 ^ nat (OnesCount32 sm - OnesCount32 m))"
proof (intro conjI allI impI)
  fix p c :: int
  show "(getSubnetCount p c = Inl (Err ErrPrefixTooSmall)) = (c \<le> p)"
    by (rule getSubnetCount_too_small_iff)
next
  fix p c :: int
  assume "0 \<le> p \<and> p < c \<and> c \<le> 32"
  then have "0 \<le> p" and "p < c" and "c \<le> 32" by blast+
  then show "getSubnetCount p c = Inr (2 ^ nat (c - p))"
    by (rule getSubnetCount_prefix_lengths)
next
  fix x
  show "0 \<le> OnesCount32 x" using OnesCount32_range [of x] by (rule conjunct1)
  show "OnesCount32 x \<le> 32" using OnesCount32_range [of x] by (rule conjunct2)
next
  fix a m sm e
  assume "getSubnetCount (OnesCount32 m) (OnesCount32 sm) = Inl e"
  then show "CreateSubnets a m sm = Inl e"
    by (simp only: CreateSubnets_def sum.case)
next
  fix a m sm subnets
  assume ok: "CreateSubnets a m sm = Inr subnets"
  then have lt: "OnesCount32 m < OnesCount32 sm"
    and s: "subnets = subnet_chain (2 ^ nat (OnesCount32 sm - OnesCount32 m)) a sm"
    using CreateSubnets_success by blast+
  show len: "length subnets = 2 ^ nat (OnesCount32 sm - OnesCount32 m)"
    unfolding s by (rule length_subnet_chain)
  have "0 \<le> OnesCount32 m" using OnesCount32_range [of m] by (rule conjunct1)
  moreover note lt
  moreover have "OnesCount32 sm \<le> 32" using OnesCount32_range [of sm] by (rule conjunct2)
  ultimately have "getSubnetCount (OnesCount32 m) (OnesCount32 sm)
            = Inr (2 ^ nat (OnesCount32 sm - OnesCount32 m))"
    by (rule getSubnetCount_prefix_lengths)
  then show "getSubnetCount (OnesCount32 m) (OnesCount32 sm) = Inr (int (length subnets))"
    by (simp only: len of_nat_power of_nat_numeral)
qed

text \<open>
  C4 at the prefix lengths 24 and 24, 24 and 25, and at the masks \<open>/24\<close> and \<open>/25\<close>.
\<close>

theorem getSubnetCount_CreateSubnets_count_witness:
  "getSubnetCount 24 24 = Inl (Err ErrPrefixTooSmall)
   \<and> getSubnetCount 24 25 = Inr 2
   \<and> CreateSubnets 3232235521 4294967040 4294967040 = Inl (Err ErrPrefixTooSmall)
   \<and> length [NewNetwork 3232235521 4294967168, NewNetwork 3232235648 4294967168]
       = 2 ^ nat (OnesCount32 4294967168 - OnesCount32 4294967040)"
proof -
  note t = getSubnetCount_CreateSubnets_count
  note t1 = t [THEN conjunct1, rule_format]
  note t2 = t [THEN conjunct2, THEN conjunct1, rule_format]
  note t4 = t [THEN conjunct2, THEN conjunct2, THEN conjunct2, THEN conjunct1, rule_format]
  note t5 = t [THEN conjunct2, THEN conjunct2, THEN conjunct2, THEN conjunct2, rule_format]
  have a: "getSubnetCount 24 24 = Inl (Err ErrPrefixTooSmall)"
    by (simp only: t1)
  have "getSubnetCount 24 25 = Inr (2 ^ nat (25 - 24))"
    by (rule t2) simp
  then have b: "getSubnetCount 24 25 = Inr 2" by simp
  have "getSubnetCount (OnesCount32 4294967040) (OnesCount32 4294967040)
          = Inl (Err ErrPrefixTooSmall)"
    by (simp only: t1)
  then have c: "CreateSubnets 3232235521 4294967040 4294967040 = Inl (Err ErrPrefixTooSmall)"
    by (rule t4)
  have d: "length [NewNetwork 3232235521 4294967168, NewNetwork 3232235648 4294967168]
       = 2 ^ nat (OnesCount32 4294967168 - OnesCount32 4294967040)"
    using t5 [OF CreateSubnets_slash24_slash25] by (rule conjunct2)
  from a b c d show ?thesis by blast
qed

end
